theory Spec2Isabelle
  imports Main "HOL-Library.Word"
begin

section \<open>Common types\<close>

text \<open>
  \<open>size_t\<close> is the unsigned 64-bit integer of the LP64 platforms the library is built
  for: arithmetic on it wraps. Pointers into the C heap are plain addresses; the null
  pointer is \<open>None\<close> of \<open>addr option\<close>. Every \<open>throw\<close> of the sources is a value of
  \<open>error\<close>; a failed \<open>assert\<close> (which aborts the process) is \<open>assert_failed\<close>.
\<close>

type_synonym size_t = "64 word"
type_synonym addr = nat
type_synonym byte = "8 word"

datatype error =
    bad_alloc
  | logic_error string
  | runtime_error string
  | assert_failed
  | no_data

section \<open>Memory pool: the free list of fixed length buffers (vectorPool.cpp)\<close>

text \<open>
  \<open>allocator_info\<close> of vectorAlloc.h, the statistics that \<open>collect_info\<close> fills in.
\<close>

record allocator_info =
  info_name :: string
  num_allocs :: size_t
  size_allocs :: size_t
  num_free :: size_t
  size_free :: size_t
  info_allocsize :: size_t
  fixedsize :: bool
  has_stats :: bool

text \<open>
  The \<open>shared_vector<void>\<close> that \<open>alloc\<close> hands out: \<open>V(A, deleter, 0, asize)\<close>, the
  buffer address and the size in bytes. The contents of the buffer (the \<open>memset\<close> calls)
  are outside the model.
\<close>

record shared_vector_void =
  vdata :: addr
  vsize :: size_t

text \<open>
  \<open>class freelist_allocator\<close>. \<open>flist\<close> is the \<open>std::vector<void*>\<close>: \<open>push_back\<close>
  appends, \<open>back\<close>/\<open>pop_back\<close> work on the last entry. The mutex is not modelled: the
  model is the sequential behaviour of one call at a time.
\<close>

record freelist_allocator =
  name :: string
  elemsize :: size_t
  allocsize :: size_t
  numalloc :: size_t
  capped :: bool
  flist :: "addr list"
  nallocd :: size_t

text \<open>
  The constructor's loop \<open>for(;i;--i)\<close>. The C allocator is an oracle: \<open>sysmalloc k\<close> is
  the pointer that the call of \<open>malloc(elemsize*allocsize)\<close> returns when \<open>k\<close> buffers
  are already on the list, \<open>None\<close> for a null pointer.
\<close>

fun prealloc :: "(nat \<Rightarrow> addr option) \<Rightarrow> nat \<Rightarrow> addr list \<Rightarrow> error + addr list" where
  "prealloc sysmalloc 0 fl = Inr fl"
| "prealloc sysmalloc (Suc i) fl =
     (case sysmalloc (length fl) of
        None \<Rightarrow> Inl bad_alloc
      | Some A \<Rightarrow> prealloc sysmalloc i (fl @ [A]))"

definition new_freelist_allocator ::
  "string \<Rightarrow> size_t \<Rightarrow> size_t \<Rightarrow> size_t \<Rightarrow> size_t \<Rightarrow> bool \<Rightarrow> (nat \<Rightarrow> addr option)
     \<Rightarrow> error + freelist_allocator" where
  "new_freelist_allocator nm e a n i c sysmalloc =
     (if \<not> i \<le> n then Inl assert_failed
      else case prealloc sysmalloc (unat i) [] of
             Inl err \<Rightarrow> Inl err
           | Inr fl \<Rightarrow> Inr \<lparr>name = nm, elemsize = e, allocsize = a, numalloc = n,
                           capped = c, flist = fl, nallocd = 0\<rparr>)"

text \<open>
  \<open>freelist_allocator::alloc(ret, e, n, zero)\<close>. The result is the exception or the
  vector stored in \<open>ret\<close>, together with the pool afterwards. \<open>sysA\<close> is the pointer
  that \<open>calloc\<close>/\<open>malloc\<close> returns if the fresh-allocation branch calls it. The two
  leading \<open>assert\<close>s abort when they fail.
\<close>

definition alloc ::
  "freelist_allocator \<Rightarrow> size_t \<Rightarrow> size_t \<Rightarrow> bool \<Rightarrow> addr option
     \<Rightarrow> (error + shared_vector_void) \<times> freelist_allocator" where
  "alloc p e n zero sysA =
     (let asize = e * n in
      if \<not> (\<not> capped p \<or> nallocd p \<le> numalloc p) then (Inl assert_failed, p)
      else if \<not> (\<not> capped p \<or> nallocd p + of_nat (length (flist p)) \<le> numalloc p)
        then (Inl assert_failed, p)
      else if asize > elemsize p * allocsize p \<or> (capped p \<and> nallocd p = numalloc p)
        then (Inl bad_alloc, p)
      else if flist p \<noteq> [] then
        (let A = last (flist p);
             p1 = p\<lparr>flist := butlast (flist p)\<rparr>;
             p2 = p1\<lparr>nallocd := nallocd p1 + 1\<rparr>
         in (Inr \<lparr>vdata = A, vsize = asize\<rparr>, p2))
      else
        (let p1 = p\<lparr>nallocd := nallocd p + 1\<rparr> in
         case sysA of
           None \<Rightarrow> (Inl bad_alloc, p1\<lparr>nallocd := nallocd p1 - 1\<rparr>)
         | Some A \<Rightarrow> (Inr \<lparr>vdata = A, vsize = asize\<rparr>, p1)))"

text \<open>
  \<open>vector_allocator<E>::malloc(n)\<close> and \<open>calloc(n)\<close> of vectorAlloc.h call \<open>alloc\<close> with
  \<open>sizeof(E)\<close>; \<open>sizeofE\<close> is that size.
\<close>

definition malloc :: "freelist_allocator \<Rightarrow> size_t \<Rightarrow> size_t \<Rightarrow> addr option
     \<Rightarrow> (error + shared_vector_void) \<times> freelist_allocator" where
  "malloc p sizeofE n sysA = alloc p sizeofE n False sysA"

definition calloc :: "freelist_allocator \<Rightarrow> size_t \<Rightarrow> size_t \<Rightarrow> addr option
     \<Rightarrow> (error + shared_vector_void) \<times> freelist_allocator" where
  "calloc p sizeofE n sysA = alloc p sizeofE n True sysA"

definition collect_info :: "freelist_allocator \<Rightarrow> allocator_info" where
  "collect_info p =
     \<lparr>info_name = name p,
      num_allocs = nallocd p,
      size_allocs = nallocd p * elemsize p * allocsize p,
      num_free = of_nat (length (flist p)),
      size_free = of_nat (length (flist p)) * elemsize p * allocsize p,
      info_allocsize = elemsize p * allocsize p,
      fixedsize = True,
      has_stats = True\<rparr>"

text \<open>
  \<open>freelist_deleter::operator()(a)\<close>, run when the last reference to a buffer of the
  pool goes away. The result says what became of the buffer: \<open>Inr None\<close> when it went
  back to the free list, \<open>Inr (Some a)\<close> when it was passed to \<open>free\<close>.
\<close>

definition freelist_deleter ::
  "freelist_allocator \<Rightarrow> addr \<Rightarrow> (error + addr option) \<times> freelist_allocator" where
  "freelist_deleter p a =
     (if \<not> nallocd p > 0 then (Inl assert_failed, p)
      else
        (let p1 = p\<lparr>nallocd := nallocd p - 1\<rparr> in
         if of_nat (length (flist p1)) < numalloc p1
         then (Inr None, p1\<lparr>flist := flist p1 @ [a]\<rparr>)
         else (Inr (Some a), p1)))"

text \<open>
  The invariant that the two \<open>assert\<close>s of \<open>alloc\<close> state, read on the natural numbers.
\<close>

definition cap_inv :: "freelist_allocator \<Rightarrow> bool" where
  "cap_inv p \<longleftrightarrow>
     unat (nallocd p) \<le> unat (numalloc p) \<and>
     unat (nallocd p) + length (flist p) \<le> unat (numalloc p)"

text \<open>
  The bound on the free list alone, which also holds in a caching (not capped) pool.
\<close>

definition free_inv :: "freelist_allocator \<Rightarrow> bool" where
  "free_inv p \<longleftrightarrow> length (flist p) \<le> unat (numalloc p)"

text \<open>
  The three reasons for \<open>alloc\<close> to throw \<open>std::bad_alloc\<close>: the request \<open>e*n\<close> is larger
  than the slot \<open>elemsize*allocsize\<close> (both products in \<open>size_t\<close> arithmetic, as the code
  computes them), the capped pool is full, or the free list is empty and the C allocator
  returns a null pointer.
\<close>

definition alloc_rejects ::
  "freelist_allocator \<Rightarrow> size_t \<Rightarrow> size_t \<Rightarrow> addr option \<Rightarrow> bool" where
  "alloc_rejects p e n sysA \<longleftrightarrow>
     e * n > elemsize p * allocsize p \<or> (capped p \<and> nallocd p = numalloc p) \<or>
     (flist p = [] \<and> sysA = None)"

subsection \<open>The pools of testVectorPool.cpp\<close>

text \<open>
  \<open>testCached\<close> builds \<open>pool_builder().name("testCached").fixed(16).cached(2).build<int>()\<close>,
  that is \<open>freelist_allocator(sname, sizeof(int), 16, 2, 1, false)\<close> with the builder's
  default \<open>ipsize = 1\<close>; \<open>testCapped\<close> is the same with \<open>capped(2)\<close>. The addresses are
  those of an allocator that hands out 4096, 8192, 12288.
\<close>

definition testCached_pool :: freelist_allocator where
  "testCached_pool =
     \<lparr>name = ''testCached'', elemsize = 4, allocsize = 16, numalloc = 2,
      capped = False, flist = [4096], nallocd = 0\<rparr>"

text \<open>\<open>X(A.malloc(16))\<close>, \<open>Y(A.malloc(8))\<close>, \<open>Z(A.malloc(8))\<close> all alive.\<close>

definition testCached_held :: freelist_allocator where
  "testCached_held =
     snd (malloc (snd (malloc (snd (malloc testCached_pool 4 16 None)) 4 8 (Some 8192)))
            4 8 (Some 12288))"

text \<open>The block is left: \<open>Z\<close>, \<open>Y\<close> and \<open>X\<close> are destroyed in this order.\<close>

definition testCached_released :: freelist_allocator where
  "testCached_released =
     snd (freelist_deleter (snd (freelist_deleter (snd (freelist_deleter testCached_held
       12288)) 8192)) 4096)"

definition testCapped_pool :: freelist_allocator where
  "testCapped_pool =
     \<lparr>name = ''testCapped'', elemsize = 4, allocsize = 16, numalloc = 2,
      capped = True, flist = [4096], nallocd = 0\<rparr>"

text \<open>\<open>X(A.malloc(16))\<close> alive, then \<open>Y(A.malloc(8))\<close> as well.\<close>

definition testCapped_one :: freelist_allocator where
  "testCapped_one = snd (malloc testCapped_pool 4 16 None)"

definition testCapped_held :: freelist_allocator where
  "testCapped_held = snd (malloc testCapped_one 4 8 (Some 8192))"

definition testCapped_released :: freelist_allocator where
  "testCapped_released =
     snd (freelist_deleter (snd (freelist_deleter testCapped_held 8192)) 4096)"

section \<open>Array value nodes (PVArray.cpp and PVDataCreateFactory.cpp)\<close>

text \<open>
  An element of a \<open>DefaultPVArray<T>\<close> with a fixed-width \<open>T\<close> is its object
  representation, the \<open>sizeof(T)\<close> bytes it occupies in memory.
\<close>

type_synonym elem = "byte list"

text \<open>
  Modelled from the spec: \<open>shared_vector\<close> (sharedVector.h is not among the sources),
  the copy-on-write buffer of an array value: its visible elements and its capacity.
\<close>

record shared_vector =
  sv_data :: "elem list"
  sv_capacity :: nat

text \<open>
  Modelled from the spec: the operations of \<open>shared_vector\<close> that the array node
  uses. \<open>reserve\<close> only raises the capacity, \<open>resize\<close> keeps the leading elements
  and fills up with zero elements, \<open>slice\<close> narrows the view to
  \<open>[offset, offset+count)\<close> clamped to the size, \<open>thaw\<close> and \<open>freeze\<close> hand the
  storage over to the new handle and leave the source handle empty.
\<close>

definition sv_empty :: shared_vector where
  "sv_empty = \<lparr>sv_data = [], sv_capacity = 0\<rparr>"

definition sv_size :: "shared_vector \<Rightarrow> nat" where
  "sv_size v = length (sv_data v)"

definition reserve :: "nat \<Rightarrow> shared_vector \<Rightarrow> shared_vector" where
  "reserve c v = v\<lparr>sv_capacity := max (sv_capacity v) c\<rparr>"

definition resize :: "nat \<Rightarrow> nat \<Rightarrow> shared_vector \<Rightarrow> shared_vector" where
  "resize sizeofT n v =
     \<lparr>sv_data = take n (sv_data v) @ replicate (n - sv_size v) (replicate sizeofT 0),
      sv_capacity = max (sv_capacity v) n\<rparr>"

definition slice :: "nat \<Rightarrow> nat \<Rightarrow> shared_vector \<Rightarrow> shared_vector" where
  "slice offset count v =
     \<lparr>sv_data = take count (drop offset (sv_data v)),
      sv_capacity = sv_capacity v - min offset (sv_size v)\<rparr>"

definition thaw :: "shared_vector \<Rightarrow> shared_vector \<times> shared_vector" where
  "thaw v = (v, sv_empty)"

definition freeze :: "shared_vector \<Rightarrow> shared_vector \<times> shared_vector" where
  "freeze v = (v, sv_empty)"

text \<open>
  \<open>DefaultPVArray<T>\<close> with its base classes \<open>PVArray\<close> (the flag \<open>capacityMutable\<close>)
  and \<open>PVField\<close> (the flag \<open>immutable\<close> and the count of notifications). The
  template parameter enters through \<open>sizeof(T)\<close>, the field \<open>sizeof_T\<close>.
\<close>

record DefaultPVArray =
  sizeof_T :: nat
  immutable :: bool
  capacityMutable :: bool
  arr_value :: shared_vector
  postPuts :: nat

text \<open>
  Modelled from the spec: \<open>PVField\<close> (not among the sources) keeps the flag that
  \<open>PVField::setImmutable\<close> sets and \<open>isImmutable\<close> reads; \<open>postPut\<close> is the "value
  changed" notification, counted in \<open>postPuts\<close>.
\<close>

definition PVField_setImmutable :: "DefaultPVArray \<Rightarrow> DefaultPVArray" where
  "PVField_setImmutable a = a\<lparr>immutable := True\<rparr>"

definition isImmutable :: "DefaultPVArray \<Rightarrow> bool" where
  "isImmutable a = immutable a"

definition postPut :: "DefaultPVArray \<Rightarrow> DefaultPVArray" where
  "postPut a = a\<lparr>postPuts := postPuts a + 1\<rparr>"

text \<open>The constructors: \<open>capacityMutable(true)\<close> and \<open>value()\<close>.\<close>

definition new_DefaultPVArray :: "nat \<Rightarrow> DefaultPVArray" where
  "new_DefaultPVArray sizeofT =
     \<lparr>sizeof_T = sizeofT, immutable = False, capacityMutable = True,
      arr_value = sv_empty, postPuts = 0\<rparr>"

definition setImmutable :: "DefaultPVArray \<Rightarrow> DefaultPVArray" where
  "setImmutable a = PVField_setImmutable (a\<lparr>capacityMutable := False\<rparr>)"

definition isCapacityMutable :: "DefaultPVArray \<Rightarrow> bool" where
  "isCapacityMutable a = (if isImmutable a then False else capacityMutable a)"

text \<open>
  The mutators return the exception thrown, if any, and the node afterwards.
\<close>

definition setCapacityMutable ::
  "DefaultPVArray \<Rightarrow> bool \<Rightarrow> error option \<times> DefaultPVArray" where
  "setCapacityMutable a isMutable =
     (if isMutable \<and> isImmutable a then (Some (runtime_error ''field is immutable''), a)
      else (None, a\<lparr>capacityMutable := isMutable\<rparr>))"

definition setCapacity :: "DefaultPVArray \<Rightarrow> nat \<Rightarrow> error option \<times> DefaultPVArray" where
  "setCapacity a cap =
     (if isCapacityMutable a then (None, a\<lparr>arr_value := reserve cap (arr_value a)\<rparr>)
      else (None, a))"

definition getLength :: "DefaultPVArray \<Rightarrow> nat" where
  "getLength a = sv_size (arr_value a)"

definition setLength :: "DefaultPVArray \<Rightarrow> nat \<Rightarrow> error option \<times> DefaultPVArray" where
  "setLength a len =
     (if isImmutable a then (Some (logic_error ''Immutable''), a)
      else if len = sv_size (arr_value a) then (None, a)
      else if len < sv_size (arr_value a)
        then (None, a\<lparr>arr_value := slice 0 len (arr_value a)\<rparr>)
      else (None, a\<lparr>arr_value := resize (sizeof_T a) len (arr_value a)\<rparr>))"

definition replace :: "DefaultPVArray \<Rightarrow> shared_vector \<Rightarrow> DefaultPVArray" where
  "replace a next = postPut (a\<lparr>arr_value := next\<rparr>)"

text \<open>\<open>swap(other)\<close>: the node and the caller's vector \<open>other\<close> afterwards.\<close>

definition swap ::
  "DefaultPVArray \<Rightarrow> shared_vector \<Rightarrow> error option \<times> DefaultPVArray \<times> shared_vector" where
  "swap a other =
     (if isImmutable a then (Some (logic_error ''Immutable''), a, other)
      else (None, a\<lparr>arr_value := other\<rparr>, arr_value a))"

section \<open>The binary codec of array values (PVDataCreateFactory.cpp)\<close>

subsection \<open>The input side: byte buffer and deserialization control\<close>

text \<open>
  Modelled from the spec: \<open>ByteBuffer\<close> and \<open>DeserializableControl\<close> are external
  collaborators, not among the sources. The state of the input side is
  \<^item> \<open>ibuf\<close>, the bytes between the position and the limit of \<open>pbuffer\<close>
    (\<open>getRemaining()\<close> is their number, \<open>getArray\<close> consumes them from the front);
  \<^item> \<open>frags\<close>, the fragments in which the transport delivers the rest of the stream,
    in the order of their arrival;
  \<^item> \<open>wants\<close>, the arguments of the calls of \<open>ensureData\<close> so far;
  \<^item> \<open>ireverse\<close>, the answer of \<open>pbuffer->reverse<T>()\<close>: the byte order of the
    buffer differs from the native one;
  \<^item> \<open>idirect\<close>: the controller accepts \<open>directDeserialize\<close>.
\<close>

record istate =
  ibuf :: "byte list"
  frags :: "byte list list"
  wants :: "nat list"
  ireverse :: bool
  idirect :: bool

text \<open>
  Modelled from the spec: \<open>pcontrol->ensureData(n)\<close> blocks until at least \<open>n\<close> bytes
  are available in the buffer. \<open>receive n buf frs\<close> takes fragments from the transport
  until the buffer holds \<open>n\<close> bytes; with \<open>n\<close> bytes already buffered it takes none.
  When the transport ends before that, the controller has nothing to wait for and the
  call fails. The request is noted in \<open>wants\<close>.
\<close>

fun receive :: "nat \<Rightarrow> byte list \<Rightarrow> byte list list \<Rightarrow> (byte list \<times> byte list list) option" where
  "receive n buf [] = (if n \<le> length buf then Some (buf, []) else None)"
| "receive n buf (f # fs) =
     (if n \<le> length buf then Some (buf, f # fs) else receive n (buf @ f) fs)"

definition ensureData :: "nat \<Rightarrow> istate \<Rightarrow> error + istate" where
  "ensureData n st =
     (case receive n (ibuf st) (frags st) of
        None \<Rightarrow> Inl no_data
      | Some r \<Rightarrow> Inr (st\<lparr>ibuf := fst r, frags := snd r, wants := wants st @ [n]\<rparr>))"

text \<open>\<open>n\<close> elements of \<open>sizeofT\<close> bytes each from the front of a byte sequence.\<close>

primrec unpack :: "nat \<Rightarrow> nat \<Rightarrow> byte list \<Rightarrow> elem list" where
  "unpack sizeofT 0 bs = []"
| "unpack sizeofT (Suc n) bs = take sizeofT bs # unpack sizeofT n (drop sizeofT bs)"

text \<open>The byte swap of one element when the buffer's byte order is not the native one.\<close>

definition swap_bytes :: "bool \<Rightarrow> elem \<Rightarrow> elem" where
  "swap_bytes reverse e = (if reverse then rev e else e)"

text \<open>
  Modelled from the spec: \<open>pbuffer->getArray(cur, n2read)\<close> of the absent \<open>ByteBuffer\<close>,
  the elements read (byte-swapped where the buffer demands it) and the state afterwards.
\<close>

definition getArray :: "nat \<Rightarrow> nat \<Rightarrow> istate \<Rightarrow> elem list \<times> istate" where
  "getArray sizeofT n st =
     (map (swap_bytes (ireverse st)) (unpack sizeofT n (ibuf st)),
      st\<lparr>ibuf := drop (n * sizeofT) (ibuf st)\<rparr>)"

text \<open>
  Modelled from the spec: \<open>pcontrol->directDeserialize(pbuffer, cur, size, sizeof(T))\<close>
  of the absent \<open>DeserializableControl\<close>: whether the controller took the transfer, the elements it stored at \<open>cur\<close>, and the state afterwards. A
  controller that takes the transfer fills the memory with the next \<open>size*sizeof(T)\<close>
  bytes of the stream.
\<close>

definition directDeserialize ::
  "nat \<Rightarrow> nat \<Rightarrow> istate \<Rightarrow> error + (bool \<times> elem list \<times> istate)" where
  "directDeserialize n sizeofT st =
     (if \<not> idirect st then Inr (False, [], st)
      else
        (let all = ibuf st @ concat (frags st) in
         if length all < n * sizeofT then Inl no_data
         else Inr (True, unpack sizeofT n all,
                   st\<lparr>ibuf := drop (n * sizeofT) all, frags := []\<rparr>)))"

text \<open>Writing \<open>es\<close> through the pointer \<open>cur = nextvalue.data() + pos\<close>.\<close>

definition store :: "nat \<Rightarrow> elem list \<Rightarrow> elem list \<Rightarrow> elem list" where
  "store pos es nv = take pos nv @ es @ drop (pos + length es) nv"

subsection \<open>\<open>DefaultPVArray<T>::deserialize\<close>\<close>

text \<open>
  \<open>BasePVScalar<T>::deserialize\<close>: \<open>ensureData(sizeof(T))\<close>, then \<open>GET(T)\<close> reads the
  value from the front of the buffer. The result is the value and the input afterwards.
\<close>

definition BasePVScalar_deserialize :: "nat \<Rightarrow> istate \<Rightarrow> error + (elem \<times> istate)" where
  "BasePVScalar_deserialize sizeofT st =
     (case ensureData sizeofT st of
        Inl e \<Rightarrow> Inl e
      | Inr st' \<Rightarrow>
          Inr (swap_bytes (ireverse st') (take sizeofT (ibuf st')),
               st'\<lparr>ibuf := drop sizeofT (ibuf st')\<rparr>))"

text \<open>
  The loop \<open>while(remaining)\<close> of \<open>deserialize\<close>. \<open>pos\<close> is the distance of \<open>cur\<close> from
  \<open>nextvalue.data()\<close> and \<open>nv\<close> the elements of \<open>nextvalue\<close>. The loop need not end:
  \<open>None\<close> is a run that never returns. A run that returns gives the exception of
  \<open>ensureData\<close>, if any, the elements of \<open>nextvalue\<close> and the input state.
\<close>

partial_function (option) deser_loop ::
  "nat \<Rightarrow> nat \<Rightarrow> nat \<Rightarrow> elem list \<Rightarrow> istate \<Rightarrow> (error option \<times> elem list \<times> istate) option" where
  "deser_loop sizeofT remaining pos nv st =
     (if remaining = 0 then Some (None, nv, st)
      else
        (let have_bytes = length (ibuf st);
             available = have_bytes div sizeofT
         in if available = 0 then
              (let want = (if remaining = 1 \<and> sizeofT > 1 then sizeofT - have_bytes
                           else sizeofT)
               in case ensureData want st of
                    Inl e \<Rightarrow> Some (Some e, nv, st)
                  | Inr st' \<Rightarrow> deser_loop sizeofT remaining pos nv st')
            else
              (let n2read = min remaining available;
                   r = getArray sizeofT n2read st
               in deser_loop sizeofT (remaining - n2read) (pos + n2read)
                    (store pos (fst r) nv) (snd r))))"

text \<open>
  \<open>deserialize(pbuffer, pcontrol)\<close>. \<open>sz\<close> is \<open>size\<close>, the number that
  \<open>SerializeHelper::readSize(pbuffer, pcontrol)\<close> has returned (the helper is not among
  the sources) and \<open>st\<close> the input after that call. The result of a call that returns
  is the exception, if any, the node and the input afterwards; \<open>None\<close> is a call that
  never returns.
\<close>

definition deserialize ::
  "DefaultPVArray \<Rightarrow> nat \<Rightarrow> istate \<Rightarrow> (error option \<times> DefaultPVArray \<times> istate) option" where
  "deserialize a sz st =
     (let th = thaw (arr_value a);
          a1 = a\<lparr>arr_value := snd th\<rparr>;
          nextvalue = resize (sizeof_T a) sz (fst th)
      in case (if \<not> ireverse st then directDeserialize sz (sizeof_T a) st
               else Inr (False, [], st)) of
           Inl e \<Rightarrow> Some (Some e, a1, st)
         | Inr (True, filled, st') \<Rightarrow> Some (None, postPut a1, st')
         | Inr (False, filled, st') \<Rightarrow>
             (case deser_loop (sizeof_T a) sz 0 (sv_data nextvalue) st' of
                None \<Rightarrow> None
              | Some (Some e, nv, st'') \<Rightarrow> Some (Some e, a1, st'')
              | Some (None, nv, st'') \<Rightarrow>
                  Some (None,
                        postPut (a1\<lparr>arr_value := fst (freeze (nextvalue\<lparr>sv_data := nv\<rparr>))\<rparr>),
                        st'')))"

subsection \<open>The output side and \<open>DefaultPVArray<T>::serialize\<close>\<close>

text \<open>
  Modelled from the spec: the output \<open>ByteBuffer\<close> and \<open>SerializableControl\<close>, not
  among the sources. \<open>obuf\<close> holds the bytes put into \<open>pbuffer\<close> since the last flush,
  \<open>ocap\<close> is the capacity of the buffer (\<open>getRemaining()\<close> is what is left of it),
  \<open>sent\<close> the bytes already handed to the transport; \<open>flushSerializeBuffer\<close> sends the
  buffer and empties it. \<open>oreverse\<close> is \<open>pbuffer->reverse<T>()\<close>, \<open>odirect\<close> says
  whether the controller accepts \<open>directSerialize\<close>, in which case it sends the buffer
  and then the raw memory of the elements.
\<close>

record ostate =
  obuf :: "byte list"
  ocap :: nat
  sent :: "byte list"
  oreverse :: bool
  odirect :: bool

text \<open>
  Modelled from the spec: \<open>flushSerializeBuffer\<close>, \<open>putArray\<close> and \<open>directSerialize\<close>
  of the absent output buffer and controller, as described above.
\<close>

definition flushSerializeBuffer :: "ostate \<Rightarrow> ostate" where
  "flushSerializeBuffer st = st\<lparr>sent := sent st @ obuf st, obuf := []\<rparr>"

definition putArray :: "elem list \<Rightarrow> ostate \<Rightarrow> ostate" where
  "putArray es st = st\<lparr>obuf := obuf st @ concat (map (swap_bytes (oreverse st)) es)\<rparr>"

definition directSerialize :: "elem list \<Rightarrow> ostate \<Rightarrow> bool \<times> ostate" where
  "directSerialize es st =
     (if odirect st then (True, st\<lparr>sent := sent st @ obuf st @ concat es, obuf := []\<rparr>)
      else (False, st))"

text \<open>The bytes that have left the serializer, in order.\<close>

definition wire :: "ostate \<Rightarrow> byte list" where
  "wire st = sent st @ obuf st"

text \<open>
  The loop \<open>while(count)\<close> of \<open>serialize\<close>; \<open>cur\<close> holds the \<open>count\<close> elements from the
  pointer \<open>cur\<close> on. With a buffer that has no room for one element even when empty the
  loop never ends (the comment in the source says so): the result is \<open>None\<close> then.
\<close>

partial_function (option) ser_loop :: "nat \<Rightarrow> elem list \<Rightarrow> ostate \<Rightarrow> ostate option" where
  "ser_loop sizeofT cur st =
     (if length cur = 0 then Some st
      else
        (let empty = ocap st - length (obuf st);
             space_for = empty div sizeofT
         in if space_for = 0 then ser_loop sizeofT cur (flushSerializeBuffer st)
            else
              (let n2send = min (length cur) space_for
               in ser_loop sizeofT (drop n2send cur) (putArray (take n2send cur) st))))"

text \<open>
  \<open>serialize(pbuffer, pflusher, offset, count)\<close>. The result is the number given to
  \<open>SerializeHelper::writeSize\<close> (the helper is not among the sources, the bytes it
  writes are not part of the output here) and the output afterwards.
\<close>

definition serialize_range ::
  "DefaultPVArray \<Rightarrow> ostate \<Rightarrow> nat \<Rightarrow> nat \<Rightarrow> (nat \<times> ostate) option" where
  "serialize_range a st offset count =
     (let temp = slice offset count (arr_value a);
          count = sv_size temp;
          cur = sv_data temp;
          d = (if \<not> oreverse st then directSerialize cur st else (False, st))
      in if fst d then Some (count, snd d)
         else (case ser_loop (sizeof_T a) cur st of
                 None \<Rightarrow> None
               | Some st' \<Rightarrow> Some (count, flushSerializeBuffer st')))"

definition serialize :: "DefaultPVArray \<Rightarrow> ostate \<Rightarrow> (nat \<times> ostate) option" where
  "serialize a st = serialize_range a st 0 (getLength a)"

subsection \<open>\<open>BasePVString\<close>\<close>

text \<open>
  Modelled from the spec: \<open>SerializeHelper::serializeSubstring(value, offset, count,
  pbuffer, pflusher)\<close> (the helper is not among the sources) writes the size prefix for
  \<open>count\<close> and then the bytes of the string at the positions \<open>[offset, offset+count)\<close>.
  The result is the number behind the size prefix and the output afterwards, all bytes
  of the payload having gone through the buffer to the transport.
\<close>

definition serializeSubstring :: "string \<Rightarrow> nat \<Rightarrow> nat \<Rightarrow> ostate \<Rightarrow> nat \<times> ostate" where
  "serializeSubstring val offset count st =
     (count,
      st\<lparr>sent := sent st @ obuf st @ map of_char (take count (drop offset val)),
         obuf := []\<rparr>)"

text \<open>
  The string scalar and its bounded \<open>serialize(pbuffer, pflusher, offset, count)\<close>.
  \<open>offset\<close> and \<open>count\<close> are \<open>size_t\<close> in the source; the function only compares them
  with the length and subtracts the clamped offset from the length, which cannot wrap,
  so they are natural numbers here.
\<close>

record BasePVString =
  str_value :: string

definition BasePVString_serialize_offset_count ::
  "BasePVString \<Rightarrow> ostate \<Rightarrow> nat \<Rightarrow> nat \<Rightarrow> nat \<times> ostate" where
  "BasePVString_serialize_offset_count s st offset count =
     (let len = length (str_value s);
          offset = (if offset > len then len else offset);
          maxCount = len - offset;
          count = (if count > maxCount then maxCount else count)
      in serializeSubstring (str_value s) offset count st)"

subsection \<open>Decoded values and the streams of the examples\<close>

text \<open>
  What the first \<open>sz\<close> elements of a byte stream \<open>bs\<close> decode to in a node \<open>a\<close>: the
  vector that \<open>deserialize\<close> freezes into the node on the element-copy path.
\<close>

definition decoded :: "DefaultPVArray \<Rightarrow> nat \<Rightarrow> bool \<Rightarrow> byte list \<Rightarrow> shared_vector" where
  "decoded a sz reverse bs =
     \<lparr>sv_data = map (swap_bytes reverse) (unpack (sizeof_T a) sz bs),
      sv_capacity = max (sv_capacity (arr_value a)) sz\<rparr>"

text \<open>
  An \<open>int32\<close> array holding the one element 1 on a little-endian machine, an output
  buffer of 16 bytes in native byte order whose controller declines the direct
  transfer, and input states in native byte order: one whose controller accepts
  \<open>directDeserialize\<close>, one that declines it and has received nothing yet, one that
  holds one byte of a two-element array, and one that holds one byte of a last element.
  The eight bytes of the array \<open>[1, 2]\<close> arrive whole, byte by byte, or as six bytes
  followed by two.
\<close>

definition one_int :: DefaultPVArray where
  "one_int =
     (new_DefaultPVArray 4)\<lparr>arr_value := \<lparr>sv_data = [[1, 0, 0, 0]], sv_capacity = 1\<rparr>\<rparr>"

definition plain_out :: ostate where
  "plain_out = \<lparr>obuf = [], ocap = 16, sent = [], oreverse = False, odirect = False\<rparr>"

definition direct_in :: istate where
  "direct_in =
     \<lparr>ibuf = [1, 0, 0, 0], frags = [], wants = [], ireverse = False, idirect = True\<rparr>"

definition copy_in :: istate where
  "copy_in = \<lparr>ibuf = [], frags = [], wants = [], ireverse = False, idirect = False\<rparr>"

definition partial_in :: istate where
  "partial_in =
     \<lparr>ibuf = [1], frags = [[0, 0, 0, 2, 0, 0, 0]], wants = [],
      ireverse = False, idirect = False\<rparr>"

definition last_in :: istate where
  "last_in =
     \<lparr>ibuf = [2], frags = [[0, 0, 0]], wants = [], ireverse = False, idirect = False\<rparr>"

definition two_ints :: "byte list" where
  "two_ints = [1, 0, 0, 0, 2, 0, 0, 0]"

definition bytewise :: "byte list list" where
  "bytewise = [[1], [0], [0], [0], [2], [0], [0], [0]]"

definition six_two :: "byte list list" where
  "six_two = [[1, 0, 0, 0, 2, 0], [0, 0]]"

section \<open>Change bitset and its compression\<close>

text \<open>
  Modelled from the spec: the type descriptors and the value tree with its pre-order
  offsets (\<open>PVField\<close> and \<open>PVStructure\<close> are not among the sources). A descriptor is a
  scalar, a scalar array, a structure array or a structure with named children;
  \<open>getNumberFields\<close> is the number of descriptors in its subtree, itself included.
\<close>

datatype Field =
    Scalar
  | ScalarArray
  | StructureArray
  | Structure "(string \<times> Field) list"

fun getNumberFields :: "Field \<Rightarrow> nat"
  and getNumberFields_list :: "(string \<times> Field) list \<Rightarrow> nat" where
  "getNumberFields Scalar = 1"
| "getNumberFields ScalarArray = 1"
| "getNumberFields StructureArray = 1"
| "getNumberFields (Structure fs) = 1 + getNumberFields_list fs"
| "getNumberFields_list [] = 0"
| "getNumberFields_list (f # fs) = getNumberFields (snd f) + getNumberFields_list fs"

text \<open>
  Modelled from the spec: a value node carries its \<open>offset\<close>; a structure value owns
  one child node per child descriptor. \<open>createPVField\<close> numbers the nodes in
  pre-order: the first child of a structure at \<open>offset\<close> gets \<open>offset + 1\<close>, each
  further child the \<open>nextOffset\<close> of its predecessor.
\<close>

datatype PVField =
    PVScalar nat
  | PVScalarArray nat
  | PVStructureArray nat
  | PVStructure nat "(string \<times> PVField) list"

fun getFieldOffset :: "PVField \<Rightarrow> nat" where
  "getFieldOffset (PVScalar off) = off"
| "getFieldOffset (PVScalarArray off) = off"
| "getFieldOffset (PVStructureArray off) = off"
| "getFieldOffset (PVStructure off cs) = off"

fun createPVField :: "nat \<Rightarrow> Field \<Rightarrow> PVField"
  and createPVFields :: "nat \<Rightarrow> (string \<times> Field) list \<Rightarrow> (string \<times> PVField) list" where
  "createPVField off Scalar = PVScalar off"
| "createPVField off ScalarArray = PVScalarArray off"
| "createPVField off StructureArray = PVStructureArray off"
| "createPVField off (Structure fs) = PVStructure off (createPVFields (off + 1) fs)"
| "createPVFields off [] = []"
| "createPVFields off (f # fs) =
     (fst f, createPVField off (snd f)) # createPVFields (off + getNumberFields (snd f)) fs"

text \<open>
  Modelled from the spec: \<open>getSubField\<close>, the lookup by dotted path name; the path is
  given split at the dots.
\<close>

fun getSubField :: "PVField \<Rightarrow> string list \<Rightarrow> PVField option" where
  "getSubField pv [] = Some pv"
| "getSubField (PVStructure off cs) (nm # path) =
     (case map_of cs nm of None \<Rightarrow> None | Some c \<Rightarrow> getSubField c path)"
| "getSubField pv (nm # path) = None"

text \<open>
  Modelled from the spec: the change bitset, a bit vector indexed by offset, as the set
  of the indices of its set bits.
\<close>

type_synonym BitSet = "nat set"

definition bs_get :: "BitSet \<Rightarrow> nat \<Rightarrow> bool" where
  "bs_get bits i \<longleftrightarrow> i \<in> bits"

definition bs_set :: "nat \<Rightarrow> BitSet \<Rightarrow> BitSet" where
  "bs_set i bits = insert i bits"

definition bs_clear :: "nat \<Rightarrow> BitSet \<Rightarrow> BitSet" where
  "bs_clear i bits = bits - {i}"

text \<open>
  Modelled from the spec: \<open>BitSetUtil::compress(bitSet, pvStructure)\<close> (bitSetUtil.cpp is
  not among the sources; only its test is). For each structure value, in post-order:
  after all of its children have been compressed, test whether the bits at every one of
  its immediate children's offsets are set; if so, clear every one of those child bits
  and set the bit at the structure's own offset.
\<close>

fun compress_node :: "PVField \<Rightarrow> BitSet \<Rightarrow> BitSet"
  and compress_children :: "(string \<times> PVField) list \<Rightarrow> BitSet \<Rightarrow> BitSet" where
  "compress_node (PVScalar off) bits = bits"
| "compress_node (PVScalarArray off) bits = bits"
| "compress_node (PVStructureArray off) bits = bits"
| "compress_node (PVStructure off cs) bits =
     (let bits' = compress_children cs bits;
          offsets = map (\<lambda>c. getFieldOffset (snd c)) cs
      in if list_all (bs_get bits') offsets
         then bs_set off (fold bs_clear offsets bits')
         else bits')"
| "compress_children [] bits = bits"
| "compress_children (c # cs) bits = compress_children cs (compress_node (snd c) bits)"

definition compress :: "BitSet \<Rightarrow> PVField \<Rightarrow> BitSet" where
  "compress bitSet pvStructure = compress_node pvStructure bitSet"

subsection \<open>The structure of testBitSetUtil.cpp\<close>

text \<open>
  The test builds a structure with the fields \<open>timeStamp\<close>, \<open>alarm\<close>, \<open>voltage\<close>,
  \<open>power\<close> and \<open>current\<close>, the last three being \<open>{value, alarm{severity,status,message}}\<close>.
\<close>

definition timeStamp_t :: Field where
  "timeStamp_t =
     Structure [(''secondsPastEpoch'', Scalar), (''nanoSeconds'', Scalar), (''userTag'', Scalar)]"

definition alarm_t :: Field where
  "alarm_t = Structure [(''severity'', Scalar), (''status'', Scalar), (''message'', Scalar)]"

definition scalar_alarm_t :: Field where
  "scalar_alarm_t = Structure [(''value'', Scalar), (''alarm'', alarm_t)]"

definition test_pvs :: PVField where
  "test_pvs = createPVField 0
     (Structure [(''timeStamp'', timeStamp_t), (''alarm'', alarm_t),
                 (''voltage'', scalar_alarm_t), (''power'', scalar_alarm_t),
                 (''current'', scalar_alarm_t)])"

text \<open>The offset of the field at a path, \<open>getSubField(path)->getFieldOffset()\<close>.\<close>

definition offset_of :: "PVField \<Rightarrow> string list \<Rightarrow> nat option" where
  "offset_of pv path = map_option getFieldOffset (getSubField pv path)"

section \<open>Memory pool: proofs\<close>

lemma unat_of_nat_len: "k \<le> unat (n::size_t) \<Longrightarrow> unat (of_nat k :: size_t) = k"
  by (metis le_unat_uoi)

lemma unat_inc:
  assumes "unat (x::size_t) < unat (n::size_t)"
  shows "unat (x + 1) = Suc (unat x)"
proof -
  have "unat n < 2 ^ LENGTH(64)" by (rule unsigned_less)
  with assms have "unat x + unat (1::size_t) < 2 ^ LENGTH(64)" by simp
  then have "unat (x + 1) = unat x + unat (1::size_t)" by (simp only: unat_add_lem)
  then show ?thesis by simp
qed

lemma unat_dec: "0 < (x::size_t) \<Longrightarrow> unat (x - 1) = unat x - 1"
  by (simp add: unat_minus_one word_neq_0_conv)

lemma of_nat_less_numalloc:
  assumes "length fl \<le> unat (n::size_t)"
  shows "(of_nat (length fl) :: size_t) < n \<longleftrightarrow> length fl < unat n"
  using unat_of_nat_len [OF assms] by (simp add: word_less_nat_alt)

lemma prealloc_length:
  "prealloc sysmalloc k fl = Inr fl' \<Longrightarrow> length fl' = length fl + k"
  by (induction k arbitrary: fl) (auto split: option.splits)

lemma new_cap_inv:
  "new_freelist_allocator nm e a n i c sysmalloc = Inr p \<Longrightarrow> cap_inv p"
  by (auto simp: new_freelist_allocator_def cap_inv_def word_le_nat_alt
      split: if_splits sum.splits dest: prealloc_length)

lemma new_capped:
  "new_freelist_allocator nm e a n i c sysmalloc = Inr p \<Longrightarrow> capped p = c"
  by (auto simp: new_freelist_allocator_def split: if_splits sum.splits)

lemma new_free_inv:
  "new_freelist_allocator nm e a n i c sysmalloc = Inr p \<Longrightarrow> free_inv p"
  by (auto simp: new_freelist_allocator_def free_inv_def word_le_nat_alt
      split: if_splits sum.splits dest: prealloc_length)

text \<open>When \<open>cap_inv\<close> holds the two \<open>assert\<close>s of \<open>alloc\<close> pass.\<close>

lemma cap_inv_asserts:
  assumes "cap_inv p"
  shows "nallocd p \<le> numalloc p"
    and "nallocd p + of_nat (length (flist p)) \<le> numalloc p"
proof -
  from assms show "nallocd p \<le> numalloc p"
    by (simp add: cap_inv_def word_le_nat_alt)
  from assms have le: "length (flist p) \<le> unat (numalloc p)"
    by (simp add: cap_inv_def)
  then have l: "unat (of_nat (length (flist p)) :: size_t) = length (flist p)"
    by (rule unat_of_nat_len)
  have "unat (numalloc p) < 2 ^ LENGTH(64)" by (rule unsigned_less)
  with assms l
  have "unat (nallocd p) + unat (of_nat (length (flist p)) :: size_t) < 2 ^ LENGTH(64)"
    by (simp add: cap_inv_def)
  then have "unat (nallocd p + of_nat (length (flist p))) =
      unat (nallocd p) + unat (of_nat (length (flist p)) :: size_t)"
    by (simp only: unat_add_lem)
  with assms l show "nallocd p + of_nat (length (flist p)) \<le> numalloc p"
    by (simp add: cap_inv_def word_le_nat_alt)
qed

lemma alloc_capped: "capped (snd (alloc p e n zero sysA)) = capped p"
  by (auto simp: alloc_def Let_def split: option.splits)

lemma deleter_capped: "capped (snd (freelist_deleter p a)) = capped p"
  by (auto simp: freelist_deleter_def Let_def)

lemma alloc_snd_cases:
  "snd (alloc p e n zero sysA) = p \<or>
   (flist p = [] \<and> nallocd p \<noteq> numalloc p \<and>
      snd (alloc p e n zero sysA) = p\<lparr>nallocd := nallocd p + 1\<rparr>) \<or>
   (flist p \<noteq> [] \<and>
      snd (alloc p e n zero sysA) = p\<lparr>flist := butlast (flist p), nallocd := nallocd p + 1\<rparr>) \<or>
   \<not> capped p"
  by (auto simp: alloc_def Let_def split: option.splits)

lemma alloc_cap_inv:
  assumes inv: "cap_inv p" and c: "capped p"
  shows "cap_inv (snd (alloc p e n zero sysA))"
proof -
  consider (same) "snd (alloc p e n zero sysA) = p"
    | (fresh) "flist p = []" "nallocd p \<noteq> numalloc p"
        "snd (alloc p e n zero sysA) = p\<lparr>nallocd := nallocd p + 1\<rparr>"
    | (reuse) "flist p \<noteq> []"
        "snd (alloc p e n zero sysA) = p\<lparr>flist := butlast (flist p), nallocd := nallocd p + 1\<rparr>"
    using alloc_snd_cases [of p e n zero sysA] c by blast
  then show ?thesis
  proof cases
    case same
    with inv show ?thesis by simp
  next
    case fresh
    from inv fresh(2) have lt: "unat (nallocd p) < unat (numalloc p)"
      by (simp add: cap_inv_def word_unat_eq_iff)
    have "unat (nallocd p + 1) = Suc (unat (nallocd p))" by (rule unat_inc [OF lt])
    with lt fresh show ?thesis by (simp add: cap_inv_def)
  next
    case reuse
    then have len: "length (butlast (flist p)) = length (flist p) - 1" "1 \<le> length (flist p)"
      by (simp_all add: Suc_leI)
    with inv have lt: "unat (nallocd p) < unat (numalloc p)"
      unfolding cap_inv_def by arith
    have "unat (nallocd p + 1) = Suc (unat (nallocd p))" by (rule unat_inc [OF lt])
    with lt len inv show ?thesis unfolding cap_inv_def reuse(2) by simp arith
  qed
qed

lemma deleter_cap_inv:
  assumes "cap_inv p"
  shows "cap_inv (snd (freelist_deleter p a))"
proof (cases "0 < nallocd p")
  case False
  with assms show ?thesis by (simp add: freelist_deleter_def)
next
  case True
  then have d: "unat (nallocd p - 1) = unat (nallocd p) - 1" by (rule unat_dec)
  from True have "0 < unat (nallocd p)" by (simp add: word_less_nat_alt)
  with assms d show ?thesis
    by (auto simp: freelist_deleter_def Let_def cap_inv_def)
qed

lemma deleter_free_inv:
  assumes "free_inv p"
  shows "free_inv (snd (freelist_deleter p a))"
  using assms of_nat_less_numalloc [of "flist p" "numalloc p"]
  by (auto simp: free_inv_def freelist_deleter_def Let_def)

lemma alloc_free_inv:
  assumes "free_inv p"
  shows "free_inv (snd (alloc p e n zero sysA))"
  using assms by (auto simp: free_inv_def alloc_def Let_def split: option.splits)

lemma num_free_le:
  assumes "free_inv p"
  shows "num_free (collect_info p) \<le> numalloc p"
  using assms unat_of_nat_len [of "length (flist p)" "numalloc p"]
  by (simp add: free_inv_def collect_info_def word_le_nat_alt)

lemma alloc_fst:
  assumes "capped p \<longrightarrow> cap_inv p"
  shows "fst (alloc p e n zero sysA) =
     (if e * n > elemsize p * allocsize p \<or> (capped p \<and> nallocd p = numalloc p)
      then Inl bad_alloc
      else if flist p \<noteq> [] then Inr \<lparr>vdata = last (flist p), vsize = e * n\<rparr>
      else case sysA of None \<Rightarrow> Inl bad_alloc | Some A \<Rightarrow> Inr \<lparr>vdata = A, vsize = e * n\<rparr>)"
  using assms cap_inv_asserts [of p]
  by (auto simp: alloc_def Let_def split: option.splits)

lemma testCached_build:
  "new_freelist_allocator ''testCached'' 4 16 2 1 False (\<lambda>k. Some (4096 + 64 * k))
     = Inr testCached_pool"
  by (simp add: new_freelist_allocator_def testCached_pool_def)

lemma testCached_held_eq:
  "testCached_held = testCached_pool\<lparr>flist := [], nallocd := 3\<rparr>"
  by (simp add: testCached_held_def testCached_pool_def malloc_def alloc_def Let_def)

lemma testCached_released_eq:
  "testCached_released = testCached_pool\<lparr>flist := [12288, 8192], nallocd := 0\<rparr>"
  by (simp add: testCached_released_def testCached_held_eq testCached_pool_def
      freelist_deleter_def Let_def)

lemma testCapped_build:
  "new_freelist_allocator ''testCapped'' 4 16 2 1 True (\<lambda>k. Some (4096 + 64 * k))
     = Inr testCapped_pool"
  by (simp add: new_freelist_allocator_def testCapped_pool_def)

lemma testCapped_one_eq:
  "testCapped_one = testCapped_pool\<lparr>flist := [], nallocd := 1\<rparr>"
  by (simp add: testCapped_one_def testCapped_pool_def malloc_def alloc_def Let_def)

lemma testCapped_held_eq:
  "testCapped_held = testCapped_pool\<lparr>flist := [], nallocd := 2\<rparr>"
  by (simp add: testCapped_held_def testCapped_one_eq testCapped_pool_def malloc_def
      alloc_def Let_def)

lemma testCapped_released_eq:
  "testCapped_released = testCapped_pool\<lparr>flist := [8192, 4096], nallocd := 0\<rparr>"
  by (simp add: testCapped_released_def testCapped_held_eq testCapped_pool_def
      freelist_deleter_def Let_def)

text \<open>
  What \<open>alloc\<close> decides on. In a pool whose capped invariant holds (so that the
  assertions of \<open>alloc\<close> pass), \<open>malloc\<close> and \<open>calloc\<close> throw \<open>std::bad_alloc\<close> exactly
  when the product \<open>e*n\<close>, as computed in \<open>size_t\<close>, exceeds the slot size, or the
  pool is capped and the number of outstanding allocations equals the cap, or the free
  list is empty and the C allocator fails; every other request returns a vector of
  \<open>e*n\<close> bytes.
\<close>

lemma alloc_throws_iff:
  assumes "capped p \<longrightarrow> cap_inv p"
  shows "(fst (malloc p e n sysA) = Inl bad_alloc \<longleftrightarrow> alloc_rejects p e n sysA) \<and>
         (fst (calloc p e n sysA) = Inl bad_alloc \<longleftrightarrow> alloc_rejects p e n sysA) \<and>
         (\<not> alloc_rejects p e n sysA \<longrightarrow>
            (\<exists>A. fst (malloc p e n sysA) = Inr \<lparr>vdata = A, vsize = e * n\<rparr>) \<and>
            (\<exists>A. fst (calloc p e n sysA) = Inr \<lparr>vdata = A, vsize = e * n\<rparr>))"
  unfolding malloc_def calloc_def alloc_fst [OF assms] alloc_rejects_def
  by (auto split: option.splits)

text \<open>
  The capped pool of the test: a request of 17 elements fails, a request of 16 succeeds
  from the free list, and with two allocations outstanding a third request fails even
  though the C allocator would deliver.
\<close>

lemma alloc_throws_iff_testCapped:
  "cap_inv testCapped_pool \<and> cap_inv testCapped_held \<and>
   alloc_rejects testCapped_pool 4 17 (Some 8192) \<and>
   fst (malloc testCapped_pool 4 17 (Some 8192)) = Inl bad_alloc \<and>
   \<not> alloc_rejects testCapped_pool 4 16 None \<and>
   fst (malloc testCapped_pool 4 16 None) = Inr \<lparr>vdata = 4096, vsize = 64\<rparr> \<and>
   alloc_rejects testCapped_held 4 8 (Some 12288) \<and>
   fst (malloc testCapped_held 4 8 (Some 12288)) = Inl bad_alloc \<and>
   fst (calloc testCapped_held 4 8 (Some 12288)) = Inl bad_alloc"
proof -
  have a: "cap_inv testCapped_pool"
    by (simp add: cap_inv_def testCapped_pool_def)
  have b: "cap_inv testCapped_held"
    by (simp add: cap_inv_def testCapped_held_eq testCapped_pool_def)
  have c: "alloc_rejects testCapped_pool 4 17 (Some 8192)"
    by (simp add: alloc_rejects_def testCapped_pool_def)
  have d: "\<not> alloc_rejects testCapped_pool 4 16 None"
    by (simp add: alloc_rejects_def testCapped_pool_def)
  have e: "alloc_rejects testCapped_held 4 8 (Some 12288)"
    by (simp add: alloc_rejects_def testCapped_held_eq testCapped_pool_def)
  have f: "fst (malloc testCapped_pool 4 16 None) = Inr \<lparr>vdata = 4096, vsize = 64\<rparr>"
    by (simp add: malloc_def alloc_def Let_def testCapped_pool_def)
  from a b c d e f
    alloc_throws_iff [of testCapped_pool 4 17 "Some 8192"]
    alloc_throws_iff [of testCapped_held 4 8 "Some 12288"]
  show ?thesis by simp
qed

text \<open>
  C6 fails where the byte size of the request wraps around. In the pool of \<open>testCapped\<close>
  (slots of 16 \<open>int\<close>, 64 bytes) a request for \<open>2^62 + 1\<close> elements is far larger than
  the slot, but \<open>e*n\<close> is 4 in \<open>size_t\<close> arithmetic: \<open>malloc\<close> does not throw, it hands
  out the buffer of the free list as a vector of 4 bytes.
\<close>

theorem malloc_overflow_served:
  "unat (elemsize testCapped_pool) * unat (allocsize testCapped_pool) = 64 \<and>
   unat (4 :: size_t) * unat (4611686018427387905 :: size_t) = 18446744073709551620 \<and>
   (4 :: size_t) * 4611686018427387905 = 4 \<and>
   cap_inv testCapped_pool \<and>
   malloc testCapped_pool 4 4611686018427387905 None =
     (Inr \<lparr>vdata = 4096, vsize = 4\<rparr>, testCapped_pool\<lparr>flist := [], nallocd := 1\<rparr>)"
  by (simp add: testCapped_pool_def cap_inv_def malloc_def alloc_def Let_def)

text \<open>
  C7. \<open>freelist_deleter\<close> decrements the outstanding count and keeps the buffer on the
  free list only if the list holds fewer than \<open>numalloc\<close> entries, otherwise it passes
  the buffer to \<open>free\<close>. The free list therefore never holds more than \<open>numalloc\<close>
  entries: the bound holds after construction and is kept by \<open>alloc\<close> and by the
  deleter, and \<open>num_free\<close> of \<open>collect_info\<close> is at most \<open>numalloc\<close>. In \<open>testCached\<close>,
  three allocations are outstanding, and releasing them leaves 0 outstanding and 2 free
  entries, the third buffer being freed.
\<close>

theorem deleter_release:
  "(0 < nallocd p \<longrightarrow>
      freelist_deleter p a =
        (if of_nat (length (flist p)) < numalloc p
         then (Inr None, p\<lparr>nallocd := nallocd p - 1, flist := flist p @ [a]\<rparr>)
         else (Inr (Some a), p\<lparr>nallocd := nallocd p - 1\<rparr>))) \<and>
   (new_freelist_allocator nm e0 a0 n0 i0 c0 sysmalloc = Inr p0 \<longrightarrow> free_inv p0) \<and>
   (free_inv p \<longrightarrow>
      free_inv (snd (alloc p e n zero sysA)) \<and>
      free_inv (snd (freelist_deleter p a)) \<and>
      num_free (collect_info p) \<le> numalloc p) \<and>
   num_allocs (collect_info testCached_held) = 3 \<and>
   num_allocs (collect_info testCached_released) = 0 \<and>
   num_free (collect_info testCached_released) = 2 \<and>
   fst (freelist_deleter (testCached_pool\<lparr>flist := [12288, 8192], nallocd := 1\<rparr>) 4096)
     = Inr (Some 4096)"
proof -
  have 1: "0 < nallocd p \<longrightarrow>
      freelist_deleter p a =
        (if of_nat (length (flist p)) < numalloc p
         then (Inr None, p\<lparr>nallocd := nallocd p - 1, flist := flist p @ [a]\<rparr>)
         else (Inr (Some a), p\<lparr>nallocd := nallocd p - 1\<rparr>))"
    by (simp add: freelist_deleter_def Let_def)
  have 2: "num_allocs (collect_info testCached_held) = 3"
    by (simp add: testCached_held_eq collect_info_def)
  have 3: "num_allocs (collect_info testCached_released) = 0"
    "num_free (collect_info testCached_released) = 2"
    by (simp_all add: testCached_released_eq collect_info_def)
  have 4: "fst (freelist_deleter (testCached_pool\<lparr>flist := [12288, 8192], nallocd := 1\<rparr>) 4096)
     = Inr (Some 4096)"
    by (simp add: testCached_pool_def freelist_deleter_def Let_def)
  from 1 2 3 4 new_free_inv alloc_free_inv deleter_free_inv num_free_le
  show ?thesis by blast
qed

text \<open>
  The last release of \<open>testCached\<close>: one allocation outstanding, two buffers on the free
  list of a pool built by the constructor with bound 2.
\<close>

theorem deleter_release_witness:
  "0 < nallocd (testCached_pool\<lparr>flist := [12288, 8192], nallocd := 1\<rparr>) \<and>
   new_freelist_allocator ''testCached'' 4 16 2 1 False (\<lambda>k. Some (4096 + 64 * k))
     = Inr testCached_pool \<and>
   free_inv testCached_pool \<and>
   free_inv (testCached_pool\<lparr>flist := [12288, 8192], nallocd := 1\<rparr>) \<and>
   freelist_deleter (testCached_pool\<lparr>flist := [12288, 8192], nallocd := 1\<rparr>) 4096 =
     (Inr (Some 4096), testCached_pool\<lparr>flist := [12288, 8192], nallocd := 0\<rparr>) \<and>
   free_inv (snd (freelist_deleter (testCached_pool\<lparr>flist := [12288, 8192], nallocd := 1\<rparr>)
     4096)) \<and>
   num_free (collect_info (testCached_pool\<lparr>flist := [12288, 8192], nallocd := 1\<rparr>)) \<le> 2"
proof -
  have a: "0 < nallocd (testCached_pool\<lparr>flist := [12288, 8192], nallocd := 1\<rparr>)"
    by simp
  have b: "free_inv (testCached_pool\<lparr>flist := [12288, 8192], nallocd := 1\<rparr>)"
    by (simp add: free_inv_def testCached_pool_def)
  have c: "numalloc testCached_pool = 2" "flist testCached_pool = [4096]"
    by (simp_all add: testCached_pool_def)
  from a b c testCached_build
    deleter_release [of "testCached_pool\<lparr>flist := [12288, 8192], nallocd := 1\<rparr>" 4096
      "''testCached''" 4 16 2 1 False "\<lambda>k. Some (4096 + 64 * k)" testCached_pool 4 8 False None]
  show ?thesis by (simp add: free_inv_def)
qed

text \<open>
  C9. For a capped pool the invariant \<open>nallocd \<le> numalloc\<close> and
  \<open>nallocd + flist.size() \<le> numalloc\<close> holds for every pool that the constructor
  returns, and \<open>malloc\<close>, \<open>calloc\<close> and the deleter keep it (and keep the pool capped).
\<close>

theorem capped_pool_invariant:
  "(new_freelist_allocator nm e0 a0 n0 i0 True sysmalloc = Inr p0 \<longrightarrow>
      capped p0 \<and> cap_inv p0) \<and>
   (capped p \<and> cap_inv p \<longrightarrow>
      capped (snd (malloc p e n sysA)) \<and> cap_inv (snd (malloc p e n sysA)) \<and>
      capped (snd (calloc p e n sysA)) \<and> cap_inv (snd (calloc p e n sysA)) \<and>
      capped (snd (freelist_deleter p a)) \<and> cap_inv (snd (freelist_deleter p a)))"
  using new_cap_inv [of nm e0 a0 n0 i0 True sysmalloc p0]
    new_capped [of nm e0 a0 n0 i0 True sysmalloc p0]
    alloc_cap_inv [of p e n False sysA] alloc_cap_inv [of p e n True sysA]
    deleter_cap_inv [of p a]
  by (simp add: malloc_def calloc_def alloc_capped deleter_capped)

theorem capped_pool_invariant_witness:
  "new_freelist_allocator ''testCapped'' 4 16 2 1 True (\<lambda>k. Some (4096 + 64 * k))
     = Inr testCapped_pool \<and>
   capped testCapped_pool \<and> cap_inv testCapped_pool \<and>
   capped testCapped_one \<and> cap_inv testCapped_one \<and>
   cap_inv (snd (malloc testCapped_one 4 8 (Some 8192))) \<and>
   cap_inv (snd (calloc testCapped_one 4 8 (Some 8192))) \<and>
   cap_inv (snd (freelist_deleter testCapped_one 4096))"
proof -
  have a: "capped testCapped_pool" "capped testCapped_one"
    by (simp_all add: testCapped_one_eq testCapped_pool_def)
  have b: "cap_inv testCapped_one"
    by (simp add: cap_inv_def testCapped_one_eq testCapped_pool_def)
  from a b testCapped_build
    capped_pool_invariant [of "''testCapped''" 4 16 2 1 "\<lambda>k. Some (4096 + 64 * k)"
      testCapped_pool testCapped_one 4 8 "Some 8192" 4096]
  show ?thesis by simp
qed

text \<open>
  C10. When the free list is empty, the request passes the size and cap checks and the
  C allocator returns a null pointer, \<open>alloc\<close> throws \<open>std::bad_alloc\<close> with the
  outstanding count back at its value before the call: the statistics of
  \<open>collect_info\<close> are those from before the call.
\<close>

theorem alloc_fresh_failure_restores:
  assumes "capped p \<longrightarrow> cap_inv p"
    and "flist p = []"
    and "\<not> e * n > elemsize p * allocsize p"
    and "\<not> (capped p \<and> nallocd p = numalloc p)"
  shows "fst (alloc p e n zero None) = Inl bad_alloc \<and>
         nallocd (snd (alloc p e n zero None)) = nallocd p \<and>
         collect_info (snd (alloc p e n zero None)) = collect_info p"
  using assms cap_inv_asserts [of p]
  by (auto simp: alloc_def Let_def collect_info_def)

theorem alloc_fresh_failure_restores_witness:
  "cap_inv testCapped_one \<and> flist testCapped_one = [] \<and>
   \<not> (4 * 8 > elemsize testCapped_one * allocsize testCapped_one) \<and>
   nallocd testCapped_one \<noteq> numalloc testCapped_one \<and>
   fst (alloc testCapped_one 4 8 True None) = Inl bad_alloc \<and>
   nallocd (snd (alloc testCapped_one 4 8 True None)) = 1 \<and>
   collect_info (snd (alloc testCapped_one 4 8 True None)) = collect_info testCapped_one"
proof -
  have a: "cap_inv testCapped_one"
    by (simp add: cap_inv_def testCapped_one_eq testCapped_pool_def)
  have b: "flist testCapped_one = []" "nallocd testCapped_one = 1"
    "numalloc testCapped_one = 2" "elemsize testCapped_one = 4"
    "allocsize testCapped_one = 16"
    by (simp_all add: testCapped_one_eq testCapped_pool_def)
  from a b alloc_fresh_failure_restores [of testCapped_one 4 8 True]
  show ?thesis by simp
qed

section \<open>Array value nodes: proofs\<close>

lemma setImmutable_isImmutable: "isImmutable (setImmutable a)"
  by (simp add: setImmutable_def PVField_setImmutable_def isImmutable_def)

text \<open>
  C5, as stated, fails for \<open>setCapacity\<close>: on a node that has been marked immutable it
  returns normally, no exception is thrown.
\<close>

theorem setCapacity_immutable_no_error:
  "isImmutable (setImmutable (new_DefaultPVArray 4)) \<and>
   fst (setCapacity (setImmutable (new_DefaultPVArray 4)) 10) = None"
  by (simp add: setCapacity_def isCapacityMutable_def setImmutable_def
      PVField_setImmutable_def isImmutable_def new_DefaultPVArray_def)

text \<open>
  C5, amended. On an immutable array node \<open>setLength\<close> and \<open>swap\<close> throw
  \<open>std::logic_error("Immutable")\<close> and \<open>setCapacityMutable(true)\<close> throws
  \<open>std::runtime_error("field is immutable")\<close>, each leaving the node (and the vector
  offered to \<open>swap\<close>) unchanged; \<open>setCapacity\<close> throws nothing and leaves the node
  unchanged.
\<close>

theorem immutable_array_mutators:
  assumes "isImmutable a"
  shows "setLength a len = (Some (logic_error ''Immutable''), a) \<and>
         swap a other = (Some (logic_error ''Immutable''), a, other) \<and>
         setCapacityMutable a True = (Some (runtime_error ''field is immutable''), a) \<and>
         setCapacity a cap = (None, a)"
  using assms
  by (simp add: setLength_def swap_def setCapacityMutable_def setCapacity_def
      isCapacityMutable_def)

theorem immutable_array_mutators_witness:
  "isImmutable (setImmutable (new_DefaultPVArray 4)) \<and>
   setLength (setImmutable (new_DefaultPVArray 4)) 3 =
     (Some (logic_error ''Immutable''), setImmutable (new_DefaultPVArray 4)) \<and>
   swap (setImmutable (new_DefaultPVArray 4)) \<lparr>sv_data = [[1, 0, 0, 0]], sv_capacity = 1\<rparr> =
     (Some (logic_error ''Immutable''), setImmutable (new_DefaultPVArray 4),
      \<lparr>sv_data = [[1, 0, 0, 0]], sv_capacity = 1\<rparr>) \<and>
   setCapacityMutable (setImmutable (new_DefaultPVArray 4)) True =
     (Some (runtime_error ''field is immutable''), setImmutable (new_DefaultPVArray 4)) \<and>
   setCapacity (setImmutable (new_DefaultPVArray 4)) 10 =
     (None, setImmutable (new_DefaultPVArray 4))"
  using immutable_array_mutators [OF setImmutable_isImmutable, of "new_DefaultPVArray 4"]
    setImmutable_isImmutable [of "new_DefaultPVArray 4"]
  by simp

section \<open>The codec of array values: proofs\<close>

lemma length_unpack: "length (unpack w n bs) = n"
  by (induction n arbitrary: bs) simp_all

lemma unpack_append: "n * w \<le> length bs \<Longrightarrow> unpack w n (bs @ cs) = unpack w n bs"
proof (induction n arbitrary: bs)
  case 0
  show ?case by simp
next
  case (Suc n)
  then have "w \<le> length bs" "n * w \<le> length (drop w bs)" by simp_all
  with Suc.IH [of "drop w bs"] show ?case by simp
qed

lemma take_store:
  "pos + length es \<le> length nv \<Longrightarrow> take (pos + length es) (store pos es nv) = take pos nv @ es"
  by (simp add: store_def)

text \<open>With the whole payload in the buffer the loop reads it in one pass.\<close>

lemma deser_loop_buffered:
  assumes w: "0 < w"
    and enough: "remaining * w \<le> length (ibuf st)"
    and len: "pos + remaining = length nv"
  shows "deser_loop w remaining pos nv st =
           Some (None,
                 take pos nv @ map (swap_bytes (ireverse st)) (unpack w remaining (ibuf st)),
                 st\<lparr>ibuf := drop (remaining * w) (ibuf st)\<rparr>)"
proof (cases "remaining = 0")
  case True
  with len show ?thesis by (subst deser_loop.simps) simp
next
  case False
  from w enough have "remaining \<le> length (ibuf st) div w"
    by (simp add: less_eq_div_iff_mult_less_eq)
  with False have av: "length (ibuf st) div w \<noteq> 0"
    and n2: "min remaining (length (ibuf st) div w) = remaining" by simp_all
  have es: "length (map (swap_bytes (ireverse st)) (unpack w remaining (ibuf st))) = remaining"
    by (simp add: length_unpack)
  have st: "store pos (map (swap_bytes (ireverse st)) (unpack w remaining (ibuf st))) nv =
      take pos nv @ map (swap_bytes (ireverse st)) (unpack w remaining (ibuf st))"
    using len by (simp add: store_def length_unpack)
  have "deser_loop w remaining pos nv st =
      deser_loop w 0 (pos + remaining)
        (store pos (fst (getArray w remaining st)) nv) (snd (getArray w remaining st))"
    using False av n2 by (subst deser_loop.simps) (simp add: Let_def)
  also have "\<dots> = Some (None, store pos (fst (getArray w remaining st)) nv,
      snd (getArray w remaining st))"
    by (subst deser_loop.simps) simp
  finally show ?thesis by (simp add: getArray_def st)
qed

text \<open>After a call of \<open>ensureData(n)\<close> that returns, \<open>n\<close> bytes are in the buffer.\<close>

lemma ensureData_enough:
  "ensureData n st = Inr st' \<Longrightarrow> n \<le> length (ibuf st')"
proof -
  have r: "receive n buf frs = Some r \<Longrightarrow> n \<le> length (fst r)" for buf frs r
    by (induction n buf frs rule: receive.induct) (auto split: if_splits)
  show "ensureData n st = Inr st' \<Longrightarrow> n \<le> length (ibuf st')"
    by (auto simp: ensureData_def split: option.splits dest: r)
qed

text \<open>
  \<open>BasePVScalar<T>::deserialize\<close> depends on this: after \<open>ensureData(sizeof(T))\<close> the
  read of \<open>GET(T)\<close> finds a whole value in the buffer.
\<close>

lemma scalar_reads_whole_value:
  assumes "BasePVScalar_deserialize sizeofT st = Inr (v, st')"
  shows "length v = sizeofT"
proof -
  from assms obtain st1 where e: "ensureData sizeofT st = Inr st1"
    and v: "v = swap_bytes (ireverse st1) (take sizeofT (ibuf st1))"
    by (auto simp: BasePVScalar_deserialize_def split: sum.splits)
  from ensureData_enough [OF e] v show ?thesis
    by (simp add: swap_bytes_def)
qed

text \<open>
  A call of \<open>ensureData\<close> for no more than what is buffered changes nothing but the
  note of the request, and so the loop, waiting for the rest of a last element of which
  at least half is buffered, repeats itself without end.
\<close>

lemma ensureData_buffered:
  "n \<le> length (ibuf st) \<Longrightarrow> ensureData n st = Inr (st\<lparr>wants := wants st @ [n]\<rparr>)"
  by (cases "frags st") (simp_all add: ensureData_def)

lemma deser_loop_spins:
  assumes "1 < w" and "w \<le> 2 * length (ibuf st)" and "length (ibuf st) < w"
  shows "deser_loop w 1 pos nv st = None"
proof (rule ccontr)
  assume "deser_loop w 1 pos nv st \<noteq> None"
  then obtain y where y: "deser_loop w 1 pos nv st = Some y" by auto
  have "\<not> (w = w \<and> (1::nat) = 1 \<and> w \<le> 2 * length (ibuf st) \<and> length (ibuf st) < w)"
  proof (rule deser_loop.raw_induct
      [where P = "\<lambda>w' rem' pos' nv' st' y'.
         \<not> (w' = w \<and> rem' = 1 \<and> w \<le> 2 * length (ibuf st') \<and> length (ibuf st') < w)",
       OF _ y])
    fix f w' rem' pos' nv' st' y'
    assume IH: "\<And>w' rem' pos' nv' st' y'. f w' rem' pos' nv' st' = Some y' \<Longrightarrow>
        \<not> (w' = w \<and> rem' = 1 \<and> w \<le> 2 * length (ibuf st') \<and> length (ibuf st') < w)"
      and eq: "(if rem' = 0 then Some (None, nv', st')
        else let have_bytes = length (ibuf st'); available = have_bytes div w'
             in if available = 0
                then let want = if rem' = 1 \<and> 1 < w' then w' - have_bytes else w'
                     in case ensureData want st' of
                          Inl e \<Rightarrow> Some (Some e, nv', st')
                        | Inr st'' \<Rightarrow> f w' rem' pos' nv' st''
                else let n2read = min rem' available; r = getArray w' n2read st'
                     in f w' (rem' - n2read) (pos' + n2read) (store pos' (fst r) nv') (snd r)) =
        Some y'"
    show "\<not> (w' = w \<and> rem' = 1 \<and> w \<le> 2 * length (ibuf st') \<and> length (ibuf st') < w)"
    proof
      assume a: "w' = w \<and> rem' = 1 \<and> w \<le> 2 * length (ibuf st') \<and> length (ibuf st') < w"
      then have d: "length (ibuf st') div w = 0" by simp
      from a have "w - length (ibuf st') \<le> length (ibuf st')" by linarith
      then have e: "ensureData (w - length (ibuf st')) st' =
          Inr (st'\<lparr>wants := wants st' @ [w - length (ibuf st')]\<rparr>)"
        by (rule ensureData_buffered)
      from eq a d e \<open>1 < w\<close>
      have "f w 1 pos' nv' (st'\<lparr>wants := wants st' @ [w - length (ibuf st')]\<rparr>) = Some y'"
        by (simp add: Let_def)
      from IH [OF this] a show False by simp
    qed
  qed
  with assms show False by simp
qed


lemma length_resize: "length (sv_data (resize w n v)) = n"
  by (simp add: resize_def sv_size_def)

text \<open>
  With the payload in the buffer \<open>deserialize\<close> returns; on the element-copy path the
  node holds the decoded elements, on the direct path it is left empty.
\<close>

lemma deserialize_buffered:
  assumes w: "0 < sizeof_T a"
    and enough: "sz * sizeof_T a \<le> length (ibuf st)"
  shows "\<exists>st'. deserialize a sz st =
           Some (None,
                 postPut (a\<lparr>arr_value :=
                   (if \<not> ireverse st \<and> idirect st then sv_empty
                    else decoded a sz (ireverse st) (ibuf st))\<rparr>),
                 st')"
proof (cases "\<not> ireverse st \<and> idirect st")
  case True
  with enough show ?thesis
    by (simp add: deserialize_def directDeserialize_def thaw_def Let_def)
next
  case False
  let ?nv = "sv_data (resize (sizeof_T a) sz (arr_value a))"
  have len: "0 + sz = length ?nv" by (simp add: length_resize)
  from deser_loop_buffered [OF w enough len] False show ?thesis
    by (auto simp: deserialize_def directDeserialize_def thaw_def freeze_def Let_def
        decoded_def resize_def)
qed

lemma ser_loop_room:
  assumes w: "0 < w" and room: "w \<le> ocap st - length (obuf st)"
  shows "ser_loop w cur st =
         (if cur = [] then Some st
          else ser_loop w (drop (min (length cur) ((ocap st - length (obuf st)) div w)) cur)
                 (putArray (take (min (length cur) ((ocap st - length (obuf st)) div w)) cur) st))"
proof -
  from w room have "(ocap st - length (obuf st)) div w \<noteq> 0"
    by (simp add: div_eq_0_iff)
  then show ?thesis by (subst ser_loop.simps) (simp add: Let_def)
qed

lemma ser_loop_result:
  assumes w: "0 < w" and cap: "w \<le> ocap st"
  shows "\<exists>st'. ser_loop w cur st = Some st' \<and>
           wire st' = wire st @ concat (map (swap_bytes (oreverse st)) cur) \<and>
           ocap st' = ocap st \<and> oreverse st' = oreverse st \<and> odirect st' = odirect st"
  using cap
proof (induction cur arbitrary: st rule: length_induct)
  case (1 cur)
  show ?case
  proof (cases "cur = []")
    case True
    then show ?thesis by (subst ser_loop.simps) simp
  next
    case ne: False
    have go: "\<exists>st'. ser_loop w cur s = Some st' \<and>
           wire st' = wire s @ concat (map (swap_bytes (oreverse s)) cur) \<and>
           ocap st' = ocap s \<and> oreverse st' = oreverse s \<and> odirect st' = odirect s"
      if room: "w \<le> ocap s - length (obuf s)" and c: "w \<le> ocap s" for s
    proof -
      define k where "k = min (length cur) ((ocap s - length (obuf s)) div w)"
      from w room have "(ocap s - length (obuf s)) div w \<noteq> 0" by (simp add: div_eq_0_iff)
      with ne have kpos: "0 < k" by (simp add: k_def)
      have step: "ser_loop w cur s = ser_loop w (drop k cur) (putArray (take k cur) s)"
        using ser_loop_room [OF w room, of cur] ne by (simp add: k_def)
      from kpos ne have shorter: "length (drop k cur) < length cur" by simp
      have c': "w \<le> ocap (putArray (take k cur) s)" using c by (simp add: putArray_def)
      from "1.IH" [rule_format, OF shorter c']
      obtain st' where r: "ser_loop w (drop k cur) (putArray (take k cur) s) = Some st'"
        "wire st' = wire (putArray (take k cur) s) @
           concat (map (swap_bytes (oreverse (putArray (take k cur) s))) (drop k cur))"
        "ocap st' = ocap (putArray (take k cur) s)"
        "oreverse st' = oreverse (putArray (take k cur) s)"
        "odirect st' = odirect (putArray (take k cur) s)"
        by blast
      have "wire (putArray (take k cur) s) @
           concat (map (swap_bytes (oreverse (putArray (take k cur) s))) (drop k cur)) =
           wire s @ concat (map (swap_bytes (oreverse s)) (take k cur @ drop k cur))"
        unfolding map_append concat_append by (simp add: putArray_def wire_def)
      with r step show ?thesis by (simp add: putArray_def)
    qed
    show ?thesis
    proof (cases "w \<le> ocap st - length (obuf st)")
      case True
      from go [OF True "1.prems"] show ?thesis .
    next
      case False
      with w have z: "(ocap st - length (obuf st)) div w = 0" by (simp add: div_eq_0_iff)
      have step: "ser_loop w cur st = ser_loop w cur (flushSerializeBuffer st)"
        using ne z by (subst ser_loop.simps) (simp add: Let_def)
      have room: "w \<le> ocap (flushSerializeBuffer st) - length (obuf (flushSerializeBuffer st))"
        using "1.prems" by (simp add: flushSerializeBuffer_def)
      have c: "w \<le> ocap (flushSerializeBuffer st)"
        using "1.prems" by (simp add: flushSerializeBuffer_def)
      from go [OF room c] show ?thesis
        unfolding step by (simp add: flushSerializeBuffer_def wire_def)
    qed
  qed
qed

lemma swap_bytes_False: "swap_bytes False = id"
  by (rule ext) (simp add: swap_bytes_def)

lemma serialize_wire:
  assumes w: "0 < sizeof_T a" and cap: "sizeof_T a \<le> ocap st"
  shows "\<exists>st'. serialize a st = Some (getLength a, st') \<and>
           wire st' = wire st @ concat (map (swap_bytes (oreverse st)) (sv_data (arr_value a)))"
proof (cases "\<not> oreverse st \<and> odirect st")
  case True
  then show ?thesis
    by (simp add: serialize_def serialize_range_def slice_def getLength_def sv_size_def
        directSerialize_def Let_def wire_def swap_bytes_False)
next
  case False
  from ser_loop_result [OF w cap, of "sv_data (arr_value a)"]
  obtain st' where r: "ser_loop (sizeof_T a) (sv_data (arr_value a)) st = Some st'"
    "wire st' = wire st @ concat (map (swap_bytes (oreverse st)) (sv_data (arr_value a)))"
    by blast
  with False show ?thesis
    by (auto simp: serialize_def serialize_range_def slice_def getLength_def sv_size_def
        directSerialize_def Let_def wire_def flushSerializeBuffer_def)
qed

lemma unpack_concat:
  assumes "\<forall>e \<in> set es. length e = w"
  shows "unpack w (length es) (concat es @ rest) = es"
  using assms by (induction es) simp_all

lemma swap_bytes_twice: "swap_bytes r (swap_bytes r e) = e"
  by (simp add: swap_bytes_def)

lemma length_swap_bytes: "length (swap_bytes r e) = length e"
  by (simp add: swap_bytes_def)

text \<open>
  The element-copy path does round-trip when the serialized bytes are in the buffer:
  what \<open>serialize\<close> sends, \<open>deserialize\<close> reads back into an equal value.
\<close>

lemma copy_path_roundtrip:
  assumes w: "0 < sizeof_T a"
    and cap: "sizeof_T a \<le> ocap out"
    and elems: "\<forall>e \<in> set (sv_data (arr_value a)). length e = sizeof_T a"
    and start: "wire out = []"
    and ser: "serialize a out = Some (n, out')"
    and target: "sizeof_T b = sizeof_T a"
    and stream: "ibuf st = wire out'"
    and order: "ireverse st = oreverse out"
    and copy: "ireverse st \<or> \<not> idirect st"
  shows "\<exists>b' st'. deserialize b n st = Some (None, b', st') \<and>
           sv_data (arr_value b') = sv_data (arr_value a)"
proof -
  let ?xs = "sv_data (arr_value a)"
  let ?enc = "map (swap_bytes (oreverse out)) ?xs"
  from serialize_wire [OF w cap] ser start
  have n: "n = length ?xs" and wr: "wire out' = concat ?enc"
    by (auto simp: getLength_def sv_size_def)
  from elems have lens: "\<forall>e \<in> set ?enc. length e = sizeof_T b"
    by (simp add: target length_swap_bytes)
  have total: "length (concat ?enc) = n * sizeof_T b"
    using elems by (simp add: n target length_concat o_def length_swap_bytes sum_list_triv
        cong: map_cong)
  have un: "unpack (sizeof_T b) n (concat ?enc) = ?enc"
    using unpack_concat [OF lens, of "[]"] by (simp add: n)
  from w target have wb: "0 < sizeof_T b" by simp
  have enough: "n * sizeof_T b \<le> length (ibuf st)"
    unfolding stream wr total by simp
  from copy have nd: "\<not> (\<not> ireverse st \<and> idirect st)" by blast
  have "map (swap_bytes (ireverse st)) ?enc = ?xs"
    by (simp add: order o_def swap_bytes_twice)
  with deserialize_buffered [OF wb enough] nd
  show ?thesis
    by (auto simp: postPut_def decoded_def stream wr un)
qed

text \<open>Unfolding \<open>unpack\<close> at a numeral, for the runs on concrete streams.\<close>

lemma unpack_numeral:
  "unpack w (numeral k) bs = take w bs # unpack w (pred_numeral k) (drop w bs)"
  by (simp add: numeral_eq_Suc)

text \<open>The array \<open>[1]\<close> written through the 16-byte buffer.\<close>

lemma serialize_one_int:
  "serialize one_int plain_out = Some (1, plain_out\<lparr>sent := [1, 0, 0, 0]\<rparr>)"
  by (simp add: serialize_def serialize_range_def one_int_def plain_out_def
      new_DefaultPVArray_def getLength_def sv_size_def slice_def Let_def ser_loop.simps
      putArray_def flushSerializeBuffer_def swap_bytes_def directSerialize_def)


text \<open>
  C2 fails on the direct-transfer path. The array \<open>[1]\<close> serializes to the size 1 and the
  bytes \<open>01 00 00 00\<close>; deserializing them into a default-valued node with a controller
  that accepts \<open>directDeserialize\<close> returns without an exception, and the node is left
  with an empty value: the function returns before \<open>value = freeze(nextvalue)\<close>.
\<close>

theorem direct_deserialize_loses_value:
  "serialize one_int plain_out = Some (1, plain_out\<lparr>sent := [1, 0, 0, 0]\<rparr>) \<and>
   wire (plain_out\<lparr>sent := [1, 0, 0, 0]\<rparr>) = ibuf direct_in \<and>
   map_option (\<lambda>r. (fst r, sv_data (arr_value (fst (snd r)))))
     (deserialize (new_DefaultPVArray 4) 1 direct_in) = Some (None, []) \<and>
   sv_data (arr_value one_int) = [[1, 0, 0, 0]]"
  by (simp add: serialize_one_int)
     (simp add: wire_def plain_out_def direct_in_def deserialize_def new_DefaultPVArray_def
      directDeserialize_def thaw_def Let_def postPut_def sv_empty_def one_int_def)

text \<open>
  C3 fails when a fragment boundary splits the last element and leaves at least half of
  it in the buffer. The eight bytes of the \<open>int32\<close> array \<open>[1, 2]\<close> decode to \<open>[1, 2]\<close>
  when they are in the buffer at once, and also when they arrive byte by byte. Delivered
  as six bytes followed by two, the first element is read, two bytes of the last one
  stay in the buffer, the loop asks \<open>ensureData\<close> for the 2 missing bytes, the call
  returns at once since 2 bytes are available, and the loop repeats the same request
  for ever: \<open>deserialize\<close> does not return.
\<close>

theorem split_last_element_never_returns:
  "concat six_two = two_ints \<and> concat bytewise = two_ints \<and>
   map_option (\<lambda>r. (fst r, sv_data (arr_value (fst (snd r)))))
     (deserialize (new_DefaultPVArray 4) 2 (copy_in\<lparr>ibuf := two_ints\<rparr>)) =
     Some (None, [[1, 0, 0, 0], [2, 0, 0, 0]]) \<and>
   map_option (\<lambda>r. (fst r, sv_data (arr_value (fst (snd r)))))
     (deserialize (new_DefaultPVArray 4) 2 (copy_in\<lparr>frags := bytewise\<rparr>)) =
     Some (None, [[1, 0, 0, 0], [2, 0, 0, 0]]) \<and>
   deserialize (new_DefaultPVArray 4) 2 (copy_in\<lparr>frags := six_two\<rparr>) = None"
proof -
  have a: "concat six_two = two_ints" "concat bytewise = two_ints"
    by (simp_all add: six_two_def two_ints_def bytewise_def)
  have whole: "map_option (\<lambda>r. (fst r, sv_data (arr_value (fst (snd r)))))
     (deserialize (new_DefaultPVArray 4) 2 (copy_in\<lparr>ibuf := two_ints\<rparr>)) =
     Some (None, [[1, 0, 0, 0], [2, 0, 0, 0]])"
    by (simp add: deserialize_def new_DefaultPVArray_def copy_in_def two_ints_def
        directDeserialize_def thaw_def freeze_def resize_def sv_empty_def sv_size_def
        Let_def deser_loop.simps getArray_def store_def swap_bytes_def postPut_def
        unpack_numeral length_unpack)
  have bytes: "map_option (\<lambda>r. (fst r, sv_data (arr_value (fst (snd r)))))
     (deserialize (new_DefaultPVArray 4) 2 (copy_in\<lparr>frags := bytewise\<rparr>)) =
     Some (None, [[1, 0, 0, 0], [2, 0, 0, 0]])"
    by (simp add: deserialize_def new_DefaultPVArray_def copy_in_def bytewise_def
        directDeserialize_def thaw_def freeze_def resize_def sv_empty_def sv_size_def
        Let_def deser_loop.simps ensureData_def getArray_def store_def swap_bytes_def
        postPut_def unpack_numeral length_unpack)
  let ?nv = "[[0, 0, 0, 0], [0, 0, 0, 0]] :: elem list"
  let ?st1 = "\<lparr>ibuf = [1, 0, 0, 0, 2, 0], frags = [[0, 0]], wants = [4],
      ireverse = False, idirect = False\<rparr>"
  let ?st2 = "\<lparr>ibuf = [2, 0], frags = [[0, 0]], wants = [4],
      ireverse = False, idirect = False\<rparr>"
  have s1: "deser_loop 4 2 0 ?nv (copy_in\<lparr>frags := six_two\<rparr>) = deser_loop 4 2 0 ?nv ?st1"
    by (subst deser_loop.simps) (simp add: copy_in_def six_two_def ensureData_def Let_def)
  have s2: "deser_loop 4 2 0 ?nv ?st1 = deser_loop 4 1 1 [[1, 0, 0, 0], [0, 0, 0, 0]] ?st2"
    by (subst deser_loop.simps)
       (simp add: Let_def getArray_def store_def swap_bytes_def)
  have s3: "deser_loop 4 1 1 [[1, 0, 0, 0], [0, 0, 0, 0]] ?st2 = None"
    by (rule deser_loop_spins) simp_all
  have nv: "replicate 2 (replicate 4 (0::byte)) = ?nv"
    by (simp add: eval_nat_numeral)
  have split: "deserialize (new_DefaultPVArray 4) 2 (copy_in\<lparr>frags := six_two\<rparr>) = None"
    using s1 s2 s3
    by (simp add: deserialize_def new_DefaultPVArray_def directDeserialize_def thaw_def
        resize_def sv_empty_def sv_size_def Let_def copy_in_def nv)
  from a whole bytes split show ?thesis by simp
qed

text \<open>
  C4, as stated, fails: with one byte of the first of two four-byte elements in the
  buffer, the deserializer asks for 4 bytes, a full element, not for the 3 bytes that
  complete the element.
\<close>

theorem request_full_element:
  "length (ibuf partial_in) = 1 \<and>
   map_option (\<lambda>r. wants (snd (snd r)))
     (deserialize (new_DefaultPVArray 4) 2 partial_in) = Some [4]"
  by (simp add: partial_in_def deserialize_def new_DefaultPVArray_def thaw_def freeze_def
      resize_def sv_empty_def sv_size_def directDeserialize_def deser_loop.simps Let_def
      ensureData_def getArray_def store_def postPut_def unpack_numeral length_unpack)

text \<open>Every call of \<open>ensureData\<close> that returns has noted its argument.\<close>

lemma ensureData_wants:
  "ensureData n st = Inr st' \<Longrightarrow> wants st' = wants st @ [n]"
  by (auto simp: ensureData_def split: option.splits)

text \<open>
  C4, amended. When the buffer holds fewer bytes than one element, the deserializer
  asks for exactly the bytes missing from the element if the element is the last one of
  the array, and for \<open>sizeof(T)\<close> bytes, a full element, at every earlier position; it
  then goes on with what the controller has supplied.
\<close>

theorem ensureData_request:
  assumes "0 < remaining"
    and "length (ibuf st) < sizeofT"
  shows "deser_loop sizeofT remaining pos nv st =
           (case ensureData (if remaining = 1 then sizeofT - length (ibuf st) else sizeofT) st of
              Inl e \<Rightarrow> Some (Some e, nv, st)
            | Inr st' \<Rightarrow> deser_loop sizeofT remaining pos nv st') \<and>
         (\<forall>st'. ensureData (if remaining = 1 then sizeofT - length (ibuf st) else sizeofT) st
                  = Inr st' \<longrightarrow>
            wants st' =
              wants st @ [if remaining = 1 then sizeofT - length (ibuf st) else sizeofT])"
proof -
  from assms have d: "length (ibuf st) div sizeofT = 0" by simp
  have step: "deser_loop sizeofT remaining pos nv st =
           (case ensureData (if remaining = 1 then sizeofT - length (ibuf st) else sizeofT) st of
              Inl e \<Rightarrow> Some (Some e, nv, st)
            | Inr st' \<Rightarrow> deser_loop sizeofT remaining pos nv st')"
  proof (cases "sizeofT > 1")
    case True
    with assms d show ?thesis
      by (subst deser_loop.simps) (simp add: Let_def)
  next
    case False
    with assms(2) have "length (ibuf st) = 0" by linarith
    then have "ibuf st = []" by simp
    with assms d False show ?thesis
      by (subst deser_loop.simps) (simp add: Let_def)
  qed
  with ensureData_wants show ?thesis by blast
qed

theorem ensureData_request_witness:
  "0 < (1::nat) \<and> length (ibuf last_in) < 4 \<and>
   ensureData 3 last_in =
     Inr \<lparr>ibuf = [2, 0, 0, 0], frags = [], wants = [3], ireverse = False, idirect = False\<rparr> \<and>
   deser_loop 4 1 0 [[0, 0, 0, 0]] last_in =
     Some (None, [[2, 0, 0, 0]],
       \<lparr>ibuf = [], frags = [], wants = [3], ireverse = False, idirect = False\<rparr>)"
proof -
  have a: "0 < (1::nat)" "length (ibuf last_in) < 4"
    by (simp_all add: last_in_def)
  have e: "ensureData 3 last_in =
     Inr \<lparr>ibuf = [2, 0, 0, 0], frags = [], wants = [3], ireverse = False, idirect = False\<rparr>"
    by (simp add: last_in_def ensureData_def)
  have l: "deser_loop 4 1 0 [[0, 0, 0, 0]]
      \<lparr>ibuf = [2, 0, 0, 0], frags = [], wants = [3], ireverse = False, idirect = False\<rparr> =
     Some (None, [[2, 0, 0, 0]],
       \<lparr>ibuf = [], frags = [], wants = [3], ireverse = False, idirect = False\<rparr>)"
    by (simp add: deser_loop.simps Let_def getArray_def store_def swap_bytes_def
        unpack_numeral)
  have len: "length (ibuf last_in) = 1" by (simp add: last_in_def)
  from a e l len ensureData_request [OF a, of 0 "[[0, 0, 0, 0]]"]
  show ?thesis by simp
qed


text \<open>
  The string \<open>abc\<close>: the whole of it, a count that runs past the end, an offset past
  the end.
\<close>

lemma serialize_substring_examples:
  "BasePVString_serialize_offset_count \<lparr>str_value = ''abc''\<rparr> plain_out 0 3 =
     (3, plain_out\<lparr>sent := [97, 98, 99]\<rparr>)"
  "BasePVString_serialize_offset_count \<lparr>str_value = ''abc''\<rparr> plain_out 1 5 =
     (2, plain_out\<lparr>sent := [98, 99]\<rparr>)"
  "BasePVString_serialize_offset_count \<lparr>str_value = ''abc''\<rparr> plain_out 7 2 =
     (0, plain_out\<lparr>sent := []\<rparr>)"
  by (simp_all add: BasePVString_serialize_offset_count_def serializeSubstring_def Let_def
      plain_out_def)

section \<open>Bitset compression: proofs\<close>

lemma fold_bs_clear: "fold bs_clear offs bits = bits - set offs"
  by (induction offs arbitrary: bits) (auto simp: bs_clear_def)

lemma compress_children_fold:
  "compress_children cs bits = fold (\<lambda>c. compress_node (snd c)) cs bits"
  by (induction cs arbitrary: bits) simp_all

lemma test_pvs_eq:
  "test_pvs =
     PVStructure 0
       [(''timeStamp'', PVStructure 1
           [(''secondsPastEpoch'', PVScalar 2), (''nanoSeconds'', PVScalar 3),
            (''userTag'', PVScalar 4)]),
        (''alarm'', PVStructure 5
           [(''severity'', PVScalar 6), (''status'', PVScalar 7), (''message'', PVScalar 8)]),
        (''voltage'', PVStructure 9
           [(''value'', PVScalar 10),
            (''alarm'', PVStructure 11
               [(''severity'', PVScalar 12), (''status'', PVScalar 13),
                (''message'', PVScalar 14)])]),
        (''power'', PVStructure 15
           [(''value'', PVScalar 16),
            (''alarm'', PVStructure 17
               [(''severity'', PVScalar 18), (''status'', PVScalar 19),
                (''message'', PVScalar 20)])]),
        (''current'', PVStructure 21
           [(''value'', PVScalar 22),
            (''alarm'', PVStructure 23
               [(''severity'', PVScalar 24), (''status'', PVScalar 25),
                (''message'', PVScalar 26)])])]"
  by (simp add: test_pvs_def timeStamp_t_def alarm_t_def scalar_alarm_t_def)

lemma test_offsets:
  "offset_of test_pvs [''current''] = Some 21"
  "offset_of test_pvs [''current'', ''value''] = Some 22"
  "offset_of test_pvs [''current'', ''alarm''] = Some 23"
  "offset_of test_pvs [''current'', ''alarm'', ''severity''] = Some 24"
  "offset_of test_pvs [''current'', ''alarm'', ''status''] = Some 25"
  "offset_of test_pvs [''current'', ''alarm'', ''message''] = Some 26"
  by (simp_all add: test_pvs_eq offset_of_def)

lemma test_compress_alarm: "compress {24, 25, 26} test_pvs = {23}"
  by (simp add: test_pvs_eq compress_def bs_get_def bs_set_def bs_clear_def Let_def) 

lemma test_compress_current: "compress {22, 24, 25, 26} test_pvs = {21}"
  by (auto simp: test_pvs_eq compress_def bs_get_def bs_set_def bs_clear_def Let_def) 

text \<open>
  C1. \<open>compress\<close> handles the children of a structure value, in order, before the
  structure itself; whenever the bits at the offsets of all immediate children are set
  afterwards, it clears those bits and sets the bit at the structure's own offset. In
  the structure of the test, with only the bits of \<open>current.alarm.severity\<close>,
  \<open>status\<close> and \<open>message\<close> set, compression leaves exactly the bit of \<open>current.alarm\<close>,
  and the bit of \<open>current\<close> is not set.
\<close>

theorem compress_structure:
  "compress_children cs bits = fold (\<lambda>c. compress_node (snd c)) cs bits \<and>
   ((\<forall>c \<in> set cs. bs_get (compress_children cs bits) (getFieldOffset (snd c))) \<longrightarrow>
      compress bits (PVStructure off cs) =
        bs_set off (compress_children cs bits - (\<lambda>c. getFieldOffset (snd c)) ` set cs) \<and>
      bs_get (compress bits (PVStructure off cs)) off \<and>
      (\<forall>c \<in> set cs. getFieldOffset (snd c) \<noteq> off \<longrightarrow>
         \<not> bs_get (compress bits (PVStructure off cs)) (getFieldOffset (snd c)))) \<and>
   offset_of test_pvs [''current''] = Some 21 \<and>
   offset_of test_pvs [''current'', ''alarm''] = Some 23 \<and>
   offset_of test_pvs [''current'', ''alarm'', ''severity''] = Some 24 \<and>
   offset_of test_pvs [''current'', ''alarm'', ''status''] = Some 25 \<and>
   offset_of test_pvs [''current'', ''alarm'', ''message''] = Some 26 \<and>
   compress {24, 25, 26} test_pvs = {23} \<and>
   \<not> bs_get (compress {24, 25, 26} test_pvs) 21"
proof -
  have g: "(\<forall>c \<in> set cs. bs_get (compress_children cs bits) (getFieldOffset (snd c))) \<longrightarrow>
      compress bits (PVStructure off cs) =
        bs_set off (compress_children cs bits - (\<lambda>c. getFieldOffset (snd c)) ` set cs) \<and>
      bs_get (compress bits (PVStructure off cs)) off \<and>
      (\<forall>c \<in> set cs. getFieldOffset (snd c) \<noteq> off \<longrightarrow>
         \<not> bs_get (compress bits (PVStructure off cs)) (getFieldOffset (snd c)))"
    by (auto simp: compress_def Let_def list_all_iff fold_bs_clear bs_set_def bs_get_def)
  have n: "\<not> bs_get (compress {24, 25, 26} test_pvs) 21"
    by (simp add: test_compress_alarm bs_get_def)
  show ?thesis
    by (intro conjI compress_children_fold g test_offsets test_compress_alarm n)
qed

theorem compress_structure_witness:
  "bs_get (compress_children
      [(''severity'', PVScalar 24), (''status'', PVScalar 25), (''message'', PVScalar 26)]
      {24, 25, 26}) 24 \<and>
   bs_get (compress_children
      [(''severity'', PVScalar 24), (''status'', PVScalar 25), (''message'', PVScalar 26)]
      {24, 25, 26}) 25 \<and>
   bs_get (compress_children
      [(''severity'', PVScalar 24), (''status'', PVScalar 25), (''message'', PVScalar 26)]
      {24, 25, 26}) 26 \<and>
   compress {24, 25, 26} (PVStructure 23
      [(''severity'', PVScalar 24), (''status'', PVScalar 25), (''message'', PVScalar 26)])
     = {23}"
  using compress_structure [of
      "[(''severity'', PVScalar 24), (''status'', PVScalar 25), (''message'', PVScalar 26)]"
      "{24, 25, 26}" 23]
  by (simp add: bs_get_def bs_set_def)

end
